theory Spec2Isabelle
  imports Complex_Main "HOL-Library.Char_ord" "HOL-Library.List_Lexorder"
begin

section \<open>Python values, errors and containers\<close>

text \<open>
  The notebook \<^verbatim>\<open>cluster.ipynb\<close> is a sequence of cells run top to bottom. Every cell
  is embedded as a function; a Python exception is the left summand of the result, and a
  cell that raises leaves the later cells unrun. Characters are the code points below 256.
  The progress bars (\<^verbatim>\<open>tqdm\<close>, \<^verbatim>\<open>set_description\<close>) only draw on the screen and are left
  out, as are the two statements that create the directory of an output file before the
  manifest and the efficiency cells open it.
\<close>

datatype py_key = IntKey int | StrKey string

datatype py_error =
    IndexError
  | KeyError py_key
  | FileNotFoundError string
  | ValueError string
  | TypeError
  | ZeroDivisionError
  | OSError string

definition bindE :: "py_error + 'a \<Rightarrow> ('a \<Rightarrow> py_error + 'b) \<Rightarrow> py_error + 'b" where
  "bindE m f = (case m of Inl e \<Rightarrow> Inl e | Inr x \<Rightarrow> f x)"

text \<open>
  A \<^verbatim>\<open>dict\<close> keeps its keys in insertion order and holds each key once: an association
  list without repeated keys. Assigning to a key that is present replaces the value where
  the key stands; assigning to a new key appends it.
\<close>

type_synonym ('k, 'v) py_dict = "('k \<times> 'v) list"

fun dict_setitem :: "('k, 'v) py_dict \<Rightarrow> 'k \<Rightarrow> 'v \<Rightarrow> ('k, 'v) py_dict" where
  "dict_setitem [] k v = [(k, v)]"
| "dict_setitem ((k', v') # d) k v =
     (if k' = k then (k, v) # d else (k', v') # dict_setitem d k v)"

definition dict_get :: "('k, 'v) py_dict \<Rightarrow> 'k \<Rightarrow> 'v option" where
  "dict_get d k = map_of d k"

definition dict_keys :: "('k, 'v) py_dict \<Rightarrow> 'k list" where
  "dict_keys d = map fst d"


definition getitem_str :: "(string, 'v) py_dict \<Rightarrow> string \<Rightarrow> py_error + 'v" where
  "getitem_str d k = (case dict_get d k of None \<Rightarrow> Inl (KeyError (StrKey k)) | Some v \<Rightarrow> Inr v)"

definition getitem_int :: "(int, 'v) py_dict \<Rightarrow> int \<Rightarrow> py_error + 'v" where
  "getitem_int d k = (case dict_get d k of None \<Rightarrow> Inl (KeyError (IntKey k)) | Some v \<Rightarrow> Inr v)"

text \<open>\<^verbatim>\<open>l[i]\<close> for a list and an index that is not negative.\<close>

definition list_getitem :: "'a list \<Rightarrow> nat \<Rightarrow> py_error + 'a" where
  "list_getitem l i = (if i < length l then Inr (l ! i) else Inl IndexError)"

section \<open>Strings\<close>

text \<open>\<^verbatim>\<open>str.isspace\<close> on the code points below 256.\<close>

definition py_isspace :: "char \<Rightarrow> bool" where
  "py_isspace c = (c \<in> set [CHR 0x09, CHR 0x0A, CHR 0x0B, CHR 0x0C, CHR 0x0D,
     CHR 0x1C, CHR 0x1D, CHR 0x1E, CHR 0x1F, CHR 0x20, CHR 0x85, CHR 0xA0])"

definition py_strip :: "string \<Rightarrow> string" where
  "py_strip s = rev (dropWhile py_isspace (rev (dropWhile py_isspace s)))"

text \<open>
  \<^verbatim>\<open>str.split()\<close> with no separator: skip a run of whitespace, take the token up to
  the next whitespace, repeat; no empty token is produced.
\<close>

function py_split :: "string \<Rightarrow> string list" where
  "py_split s =
     (case dropWhile py_isspace s of
        [] \<Rightarrow> []
      | c # cs \<Rightarrow> (c # takeWhile (\<lambda>x. \<not> py_isspace x) cs)
                 # py_split (dropWhile (\<lambda>x. \<not> py_isspace x) cs))"
  by pat_completeness auto
termination
proof (relation "measure length")
  show "wf (measure length)" by simp
next
  fix s :: string and c :: char and cs :: string
  assume d: "dropWhile py_isspace s = c # cs"
  have "length (dropWhile (\<lambda>x. \<not> py_isspace x) cs) \<le> length cs"
    by (rule length_dropWhile_le)
  moreover have "length (c # cs) \<le> length s"
    using length_dropWhile_le [of py_isspace s] d by simp
  ultimately show "(dropWhile (\<lambda>x. \<not> py_isspace x) cs, s) \<in> measure length"
    by simp
qed

declare py_split.simps [simp del]

text \<open>\<^verbatim>\<open>str(n)\<close> for an integer, as the f-strings \<^verbatim>\<open>f'antiref{c}'\<close> render it.\<close>

definition digit_char :: "nat \<Rightarrow> char" where
  "digit_char n = ''0123456789'' ! n"

fun str_nat :: "nat \<Rightarrow> string" where
  "str_nat n = (if n < 10 then [digit_char n] else str_nat (n div 10) @ [digit_char (n mod 10)])"

declare str_nat.simps [simp del]

definition str_int :: "int \<Rightarrow> string" where
  "str_int i = (if i < 0 then CHR ''-'' # str_nat (nat (- i)) else str_nat (nat i))"

text \<open>\<^verbatim>\<open>','.join(xs)\<close> and its kin.\<close>

fun py_join :: "string \<Rightarrow> string list \<Rightarrow> string" where
  "py_join sep [] = []"
| "py_join sep [x] = x"
| "py_join sep (x # y # ys) = x @ sep @ py_join sep (y # ys)"

section \<open>The assignment tables (cell 8a002d12)\<close>

text \<open>
  The file system is a map from a path to the lines the file iterator yields; a path
  without a file makes \<^verbatim>\<open>open\<close> raise.
\<close>

type_synonym filesystem = "string \<rightharpoonup> string list"

definition open_lines :: "filesystem \<Rightarrow> string \<Rightarrow> py_error + string list" where
  "open_lines fs path = (case fs path of None \<Rightarrow> Inl (FileNotFoundError path) | Some ls \<Rightarrow> Inr ls)"

type_synonym assignment = "(string, string) py_dict"
type_synonym cluster_dicts = "(int, assignment) py_dict"

text \<open>
  One pass of the inner loop:
  \<^verbatim>\<open>if l := line.strip().split(): d[l[1]] = l[0]\<close>.
  The right-hand side \<^verbatim>\<open>l[0]\<close> is evaluated before the subscript \<^verbatim>\<open>l[1]\<close>.
\<close>

definition load_line :: "assignment \<Rightarrow> string \<Rightarrow> py_error + assignment" where
  "load_line d line =
     (let l = py_split (py_strip line) in
      if l = [] then Inr d
      else bindE (list_getitem l 0) (\<lambda>v.
           bindE (list_getitem l 1) (\<lambda>k.
           Inr (dict_setitem d k v))))"

fun load_lines :: "assignment \<Rightarrow> string list \<Rightarrow> py_error + assignment" where
  "load_lines d [] = Inr d"
| "load_lines d (line # rest) = bindE (load_line d line) (\<lambda>d'. load_lines d' rest)"

definition load_table :: "string list \<Rightarrow> py_error + assignment" where
  "load_table lines = load_lines [] lines"

definition tsv_path :: "int \<Rightarrow> string" where
  "tsv_path threshold = ''./data/antiref/tsv/antiref'' @ str_int threshold @ ''.tsv''"

fun load_loop :: "filesystem \<Rightarrow> cluster_dicts \<Rightarrow> int list \<Rightarrow> py_error + cluster_dicts" where
  "load_loop fs cluster_dicts [] = Inr cluster_dicts"
| "load_loop fs cluster_dicts (threshold # rest) =
     bindE (open_lines fs (tsv_path threshold)) (\<lambda>f.
     bindE (load_table f) (\<lambda>d.
     load_loop fs (dict_setitem cluster_dicts threshold d) rest))"

definition load_cluster_dicts :: "filesystem \<Rightarrow> int list \<Rightarrow> py_error + cluster_dicts" where
  "load_cluster_dicts fs ths = load_loop fs [] ths"

text \<open>
  A record of an assignment table as the clustering tool writes it: the representative,
  a tab, the member, a newline. Used to write tables down in examples.
\<close>

definition tsv_line :: "string \<Rightarrow> string \<Rightarrow> string" where
  "tsv_line rep member = rep @ [CHR 0x09] @ member @ [CHR 0x0A]"

section \<open>The cluster manifest (cell 06a080c0)\<close>

definition thresholds :: "int list" where
  "thresholds = [100, 99, 98, 96, 94, 92, 90]"

text \<open>
  The body of the row loop, as the cell unrolls it: six subscripts
  \<^verbatim>\<open>cluster_dicts[t][c]\<close>, each of which raises \<^verbatim>\<open>KeyError\<close> on a missing key, and the
  row that \<^verbatim>\<open>','.join\<close> receives once all six have returned.
\<close>

definition manifest_row :: "cluster_dicts \<Rightarrow> string \<Rightarrow> py_error + string list" where
  "manifest_row cluster_dicts c100 =
     bindE (bindE (getitem_int cluster_dicts 99) (\<lambda>d. getitem_str d c100)) (\<lambda>c99.
     bindE (bindE (getitem_int cluster_dicts 98) (\<lambda>d. getitem_str d c99)) (\<lambda>c98.
     bindE (bindE (getitem_int cluster_dicts 96) (\<lambda>d. getitem_str d c98)) (\<lambda>c96.
     bindE (bindE (getitem_int cluster_dicts 94) (\<lambda>d. getitem_str d c96)) (\<lambda>c94.
     bindE (bindE (getitem_int cluster_dicts 92) (\<lambda>d. getitem_str d c94)) (\<lambda>c92.
     bindE (bindE (getitem_int cluster_dicts 90) (\<lambda>d. getitem_str d c92)) (\<lambda>c90.
     Inr [c100, c99, c98, c96, c94, c92, c90]))))))"

definition row_line :: "string list \<Rightarrow> string" where
  "row_line row = py_join '','' row @ [CHR 0x0A]"

text \<open>
  The file is the list of the strings handed to \<^verbatim>\<open>f.write\<close>, in order. An exception
  leaves the \<^verbatim>\<open>with\<close> block, which closes the file with what was written so far; the
  result is that content and the exception, if any.
\<close>

fun write_rows :: "cluster_dicts \<Rightarrow> string list \<Rightarrow> string list \<Rightarrow> string list \<times> py_error option" where
  "write_rows cluster_dicts f [] = (f, None)"
| "write_rows cluster_dicts f (c100 # rest) =
     (case manifest_row cluster_dicts c100 of
        Inl e \<Rightarrow> (f, Some e)
      | Inr row \<Rightarrow> write_rows cluster_dicts (f @ [row_line row]) rest)"

definition manifest_header :: "int list \<Rightarrow> string list" where
  "manifest_header ths = map (\<lambda>c. ''antiref'' @ str_int c) ths"

definition manifest_writer :: "int list \<Rightarrow> cluster_dicts \<Rightarrow> string list \<times> py_error option" where
  "manifest_writer ths cluster_dicts =
     (let header = manifest_header ths;
          f = [row_line header]
      in case getitem_int cluster_dicts 99 of
           Inl e \<Rightarrow> (f, Some e)
         | Inr d \<Rightarrow> write_rows cluster_dicts f (dict_keys d))"

text \<open>
  The chain resolution as one recursion over the levels, which is how the specification
  describes it: look the current value up in
  the level's table, continue from the representative found. Lemma
  \<open>manifest_row_resolve\<close> below shows that the unrolled statements compute it.
\<close>

fun resolve_chain :: "cluster_dicts \<Rightarrow> int list \<Rightarrow> string \<Rightarrow> py_error + string list" where
  "resolve_chain cluster_dicts [] cur = Inr []"
| "resolve_chain cluster_dicts (t # ts) cur =
     bindE (bindE (getitem_int cluster_dicts t) (\<lambda>d. getitem_str d cur)) (\<lambda>nxt.
     bindE (resolve_chain cluster_dicts ts nxt) (\<lambda>rest.
     Inr (nxt # rest)))"


text \<open>
  The mock data of the notebook's manifest table, as seven assignment tables: \<open>id_02\<close>
  joins \<open>id_01\<close> at 99, nothing merges from 98 to 92, and at 90 \<open>id_01\<close> joins \<open>id_03\<close>.
  \<open>example_dicts\<close> is what the loader makes of them. In \<open>broken_fs\<close> the table of level 96
  lacks \<open>id_04\<close>.
\<close>

definition identity_table :: "string list \<Rightarrow> string list" where
  "identity_table ids = map (\<lambda>i. tsv_line i i) ids"

definition example_fs :: filesystem where
  "example_fs = map_of
     [(tsv_path 100, identity_table [''id_01'', ''id_02'', ''id_03'', ''id_04'', ''id_05'']),
      (tsv_path 99, [tsv_line ''id_01'' ''id_01'', tsv_line ''id_01'' ''id_02'',
                     tsv_line ''id_03'' ''id_03'', tsv_line ''id_04'' ''id_04'',
                     tsv_line ''id_05'' ''id_05'']),
      (tsv_path 98, identity_table [''id_01'', ''id_03'', ''id_04'', ''id_05'']),
      (tsv_path 96, identity_table [''id_01'', ''id_03'', ''id_04'', ''id_05'']),
      (tsv_path 94, identity_table [''id_01'', ''id_03'', ''id_04'', ''id_05'']),
      (tsv_path 92, identity_table [''id_01'', ''id_03'', ''id_04'', ''id_05'']),
      (tsv_path 90, [tsv_line ''id_03'' ''id_01'', tsv_line ''id_03'' ''id_03'',
                     tsv_line ''id_04'' ''id_04'', tsv_line ''id_05'' ''id_05''])]"

definition identity_dict :: "string list \<Rightarrow> assignment" where
  "identity_dict ids = map (\<lambda>i. (i, i)) ids"

definition example_dicts :: cluster_dicts where
  "example_dicts =
     [(100, identity_dict [''id_01'', ''id_02'', ''id_03'', ''id_04'', ''id_05'']),
      (99, [(''id_01'', ''id_01''), (''id_02'', ''id_01''), (''id_03'', ''id_03''),
            (''id_04'', ''id_04''), (''id_05'', ''id_05'')]),
      (98, identity_dict [''id_01'', ''id_03'', ''id_04'', ''id_05'']),
      (96, identity_dict [''id_01'', ''id_03'', ''id_04'', ''id_05'']),
      (94, identity_dict [''id_01'', ''id_03'', ''id_04'', ''id_05'']),
      (92, identity_dict [''id_01'', ''id_03'', ''id_04'', ''id_05'']),
      (90, [(''id_01'', ''id_03''), (''id_03'', ''id_03''), (''id_04'', ''id_04''),
            (''id_05'', ''id_05'')])]"



section \<open>The clustering steps (cells 90d21181, db3a5e7b, 5ed69526)\<close>

text \<open>
  What the notebook asks of the operating system is a parameter: \<^verbatim>\<open>os.path.abspath\<close>,
  \<^verbatim>\<open>os.path.isdir\<close>, \<^verbatim>\<open>abutils.io.make_dir\<close> (which may raise), \<^verbatim>\<open>print\<close>, and
  \<^verbatim>\<open>Popen(cmd, shell=True, ...)\<close> followed by \<^verbatim>\<open>communicate()\<close>, which runs the command
  line to its end and yields the exit status and the two captured streams. The state of
  the machine (files, databases, console) is the type \<open>'w\<close>.
\<close>

record completed =
  returncode :: int
  stdout :: string
  stderr :: string

record 'w os_env =
  abspath :: "string \<Rightarrow> string"
  isdir :: "'w \<Rightarrow> string \<Rightarrow> bool"
  make_dir :: "string \<Rightarrow> 'w \<Rightarrow> py_error + 'w"
  print :: "string \<Rightarrow> 'w \<Rightarrow> 'w"
  popen :: "string \<Rightarrow> 'w \<Rightarrow> completed \<times> 'w"

text \<open>\<^verbatim>\<open>os.path.dirname\<close> of \<^verbatim>\<open>posixpath\<close>.\<close>

definition dirname :: "string \<Rightarrow> string" where
  "dirname p =
     (let head = rev (dropWhile (\<lambda>c. c \<noteq> CHR ''/'') (rev p)) in
      if head \<noteq> [] \<and> \<not> (\<forall>c \<in> set head. c = CHR ''/'')
      then rev (dropWhile (\<lambda>c. c = CHR ''/'') (rev head))
      else head)"

text \<open>
  \<^verbatim>\<open>f"{threshold/100:0.2f}"\<close>: the quotient is a double, printed with two decimals. For
  an integer of magnitude below \<open>2^52\<close> the double lies within half a hundredth of the
  exact quotient, so the digits are those of the integer with the point two places from
  the right.
\<close>

definition fmt_div100 :: "int \<Rightarrow> string" where
  "fmt_div100 t =
     (let n = nat \<bar>t\<bar>;
          body = str_nat (n div 100) @ ''.'' @ [digit_char (n mod 100 div 10), digit_char (n mod 10)]
      in if t < 0 then CHR ''-'' # body else body)"

fun ensure_dirs :: "'w os_env \<Rightarrow> string list \<Rightarrow> 'w \<Rightarrow> py_error + 'w" where
  "ensure_dirs env [] w = Inr w"
| "ensure_dirs env (path # rest) w =
     (let d = dirname path in
      if \<not> isdir env w d
      then bindE (make_dir env d w) (\<lambda>w'. ensure_dirs env rest w')
      else ensure_dirs env rest w)"

definition linclust_cmd :: "'w os_env \<Rightarrow> int \<Rightarrow> string \<Rightarrow> string \<Rightarrow> string" where
  "linclust_cmd env threshold parent_db0 temp_dir0 =
     (let temp_dir = abspath env temp_dir0;
          parent_db = abspath env parent_db0;
          cluster_db = ''./data/antiref/clusterdb/antiref'' @ str_int threshold;
          seq_db = ''./data/antiref/seqdb/antiref'' @ str_int threshold;
          seq_tsv = ''./data/antiref/tsv/antiref'' @ str_int threshold @ ''.tsv'';
          cluster_sizes = ''./data/antiref/tsv/antiref'' @ str_int threshold @ ''_cluster-sizes.csv'';
          seq_fasta = ''./data/antiref/fasta/antiref'' @ str_int threshold @ ''.fasta''
      in ''mmseqs linclust '' @ parent_db @ '' '' @ cluster_db @ '' '' @ temp_dir @ '' ''
         @ ''--cov-mode 0 ''
         @ ''-c 1.0 ''
         @ ''--min-seq-id '' @ fmt_div100 threshold @ '' ''
         @ ''&& mmseqs createsubdb '' @ cluster_db @ '' '' @ parent_db @ '' '' @ seq_db @ '' ''
         @ ''&& mmseqs convert2fasta '' @ seq_db @ '' '' @ seq_fasta @ '' ''
         @ ''&& mmseqs createtsv '' @ parent_db @ '' '' @ parent_db @ '' '' @ cluster_db @ '' '' @ seq_tsv @ '' ''
         @ ''&& cut -f 1 '' @ seq_tsv @ '' | sort | uniq -c > '' @ cluster_sizes @ '' '')"

text \<open>
  \<^verbatim>\<open>linclust\<close>: the directories, the command line, the process, and the return value,
  which is the pair of captured streams under \<^verbatim>\<open>debug\<close> and \<^verbatim>\<open>None\<close> otherwise. The
  exit status in \<open>p\<close> is not read.
\<close>

definition linclust ::
  "'w os_env \<Rightarrow> int \<Rightarrow> string \<Rightarrow> string \<Rightarrow> bool \<Rightarrow> 'w \<Rightarrow> py_error + ((string \<times> string) option \<times> 'w)" where
  "linclust env threshold parent_db temp_dir debug w =
     (let cluster_db = ''./data/antiref/clusterdb/antiref'' @ str_int threshold;
          seq_db = ''./data/antiref/seqdb/antiref'' @ str_int threshold;
          seq_tsv = ''./data/antiref/tsv/antiref'' @ str_int threshold @ ''.tsv'';
          seq_fasta = ''./data/antiref/fasta/antiref'' @ str_int threshold @ ''.fasta''
      in bindE (ensure_dirs env [cluster_db, seq_db, seq_tsv, seq_fasta] w) (\<lambda>w1.
         let cmd = linclust_cmd env threshold parent_db temp_dir;
             w2 = (if debug then print env [] (print env cmd (print env [] w1)) else w1);
             (p, w3) = popen env cmd w2
         in if debug then Inr (Some (stdout p, stderr p), w3) else Inr (None, w3)))"

definition parent_lookup :: "(int, string) py_dict" where
  "parent_lookup =
     [(100, ''./data/antiref/seqdb/init''),
      (99, ''./data/antiref/seqdb/antiref100''),
      (98, ''./data/antiref/seqdb/antiref99''),
      (96, ''./data/antiref/seqdb/antiref98''),
      (94, ''./data/antiref/seqdb/antiref96''),
      (92, ''./data/antiref/seqdb/antiref94''),
      (90, ''./data/antiref/seqdb/antiref92'')]"

text \<open>The loop of cell 5ed69526; \<^verbatim>\<open>linclust\<close> is called with its default \<^verbatim>\<open>temp_dir\<close> and \<^verbatim>\<open>debug\<close>.\<close>

fun pipeline_loop :: "'w os_env \<Rightarrow> (int, string) py_dict \<Rightarrow> int list \<Rightarrow> 'w \<Rightarrow> py_error + 'w" where
  "pipeline_loop env lookup [] w = Inr w"
| "pipeline_loop env lookup (threshold # rest) w =
     bindE (getitem_int lookup threshold) (\<lambda>parent_db.
     let w1 = print env (''clustering at '' @ fmt_div100 threshold @ '' identity using linclust...'') w;
         w2 = print env (''  - parent: '' @ parent_db) w1
     in bindE (linclust env threshold parent_db ''/tmp'' False w2) (\<lambda>(r, w3).
        pipeline_loop env lookup rest w3))"

section \<open>The size summary and the efficiencies (cell 80d44763)\<close>

text \<open>
  The last command of a step, \<^verbatim>\<open>cut -f 1 seq_tsv | sort | uniq -c > cluster_sizes\<close>, on the
  lines of the table: the text before the first tab of every line, sorted in byte order
  (the C locale), every run of equal lines replaced by one row with its length.
  \<^verbatim>\<open>wc -l\<close> counts the rows. The representatives of a table are its first fields, the
  members its second fields.
\<close>

definition chomp :: "string \<Rightarrow> string" where
  "chomp line = (if line \<noteq> [] \<and> last line = CHR 0x0A then butlast line else line)"

definition cut_f1 :: "string \<Rightarrow> string" where
  "cut_f1 line = takeWhile (\<lambda>c. c \<noteq> CHR 0x09) line"

definition cut_f2 :: "string \<Rightarrow> string" where
  "cut_f2 line =
     (if CHR 0x09 \<in> set line
      then takeWhile (\<lambda>c. c \<noteq> CHR 0x09) (tl (dropWhile (\<lambda>c. c \<noteq> CHR 0x09) line))
      else line)"

fun uniq_c :: "string list \<Rightarrow> (nat \<times> string) list" where
  "uniq_c [] = []"
| "uniq_c (x # xs) =
     (case uniq_c xs of
        [] \<Rightarrow> [(1, x)]
      | (n, y) # rest \<Rightarrow> if x = y then (Suc n, y) # rest else (1, x) # (n, y) # rest)"

definition cluster_sizes :: "string list \<Rightarrow> (nat \<times> string) list" where
  "cluster_sizes seq_tsv = uniq_c (sort (map (\<lambda>line. cut_f1 (chomp line)) seq_tsv))"

definition cluster_count :: "string list \<Rightarrow> nat" where
  "cluster_count seq_tsv = length (cluster_sizes seq_tsv)"

definition representatives :: "string list \<Rightarrow> string set" where
  "representatives seq_tsv = set (map (\<lambda>line. cut_f1 (chomp line)) seq_tsv)"

definition members :: "string list \<Rightarrow> string set" where
  "members seq_tsv = set (map (\<lambda>line. cut_f2 (chomp line)) seq_tsv)"











section \<open>Environments for the examples\<close>

text \<open>
  \<open>logged env\<close> is \<open>env\<close> with a record kept beside the machine state: every command line
  handed to \<^verbatim>\<open>Popen\<close> is appended to it. Nothing else changes.
\<close>

definition logged :: "'w os_env \<Rightarrow> ('w \<times> string list) os_env" where
  "logged env =
     \<lparr>abspath = abspath env,
      isdir = (\<lambda>(w, cmds) d. isdir env w d),
      make_dir = (\<lambda>d (w, cmds). bindE (make_dir env d w) (\<lambda>w'. Inr (w', cmds))),
      print = (\<lambda>s (w, cmds). (print env s w, cmds)),
      popen = (\<lambda>cmd (w, cmds). (fst (popen env cmd w), (snd (popen env cmd w), cmds @ [cmd])))\<rparr>"

text \<open>
  A machine whose working directory is \<^verbatim>\<open>/antiref\<close>, on which every directory exists and
  every command line fails with exit status 1.
\<close>

definition example_abspath :: "string \<Rightarrow> string" where
  "example_abspath p =
     (if take 1 p = ''/'' then p
      else ''/antiref/'' @ (if take 2 p = ''./'' then drop 2 p else p))"

definition failing_env :: "unit os_env" where
  "failing_env =
     \<lparr>abspath = example_abspath,
      isdir = (\<lambda>w d. True),
      make_dir = (\<lambda>d w. Inr w),
      print = (\<lambda>s w. w),
      popen = (\<lambda>cmd w. (\<lparr>returncode = 1, stdout = [], stderr = ''sh: 1: mmseqs: not found''\<rparr>, w))\<rparr>"


text \<open>
  A table in which no member is listed under two representatives, read by fields as the
  size summary reads it.
\<close>

definition one_representative_per_member :: "string list \<Rightarrow> bool" where
  "one_representative_per_member seq_tsv =
     (\<forall>l \<in> set seq_tsv. \<forall>l' \<in> set seq_tsv.
        cut_f2 (chomp l) = cut_f2 (chomp l') \<longrightarrow> cut_f1 (chomp l) = cut_f1 (chomp l'))"

section \<open>Basic facts\<close>

lemma bindE_simps:
  "bindE (Inl e) f = Inl e"
  "bindE (Inr x) f = f x"
  by (simp_all add: bindE_def)

lemma dict_get_setitem:
  "dict_get (dict_setitem d k v) k' = (if k' = k then Some v else dict_get d k')"
  by (induction d) (auto simp: dict_get_def)

lemma dict_keys_setitem:
  "dict_keys (dict_setitem d k v) = (if k \<in> set (dict_keys d) then dict_keys d else dict_keys d @ [k])"
  by (induction d) (force simp: dict_keys_def)+


lemma dict_get_None_iff: "dict_get d k = None \<longleftrightarrow> k \<notin> set (dict_keys d)"
  by (simp add: dict_get_def dict_keys_def map_of_eq_None_iff)

lemma py_split_Nil_iff: "py_split s = [] \<longleftrightarrow> (\<forall>c \<in> set s. py_isspace c)"
proof (cases "dropWhile py_isspace s")
  case Nil
  then have "py_split s = []" by (subst py_split.simps) (simp only: list.case)
  moreover have "\<forall>c \<in> set s. py_isspace c"
    using Nil unfolding dropWhile_eq_Nil_conv .
  ultimately show ?thesis by simp
next
  case (Cons x xs)
  then have "py_split s \<noteq> []" by (subst py_split.simps) (simp only: list.case list.distinct not_False_eq_True)
  moreover have "\<not> (\<forall>c \<in> set s. py_isspace c)"
    using Cons unfolding dropWhile_eq_Nil_conv [symmetric] by (simp only: list.distinct not_False_eq_True)
  ultimately show ?thesis by simp
qed

lemma py_strip_Nil_iff: "py_strip s = [] \<longleftrightarrow> (\<forall>c \<in> set s. py_isspace c)"
proof
  assume "py_strip s = []"
  then have "dropWhile py_isspace (rev (dropWhile py_isspace s)) = []"
    unfolding py_strip_def by (simp only: rev_is_Nil_conv)
  then have a: "\<forall>c \<in> set (dropWhile py_isspace s). py_isspace c"
    unfolding dropWhile_eq_Nil_conv by (simp only: set_rev)
  have "dropWhile py_isspace s = []"
  proof (rule ccontr)
    assume ne: "dropWhile py_isspace s \<noteq> []"
    then have "\<not> py_isspace (hd (dropWhile py_isspace s))" by (rule hd_dropWhile)
    moreover have "hd (dropWhile py_isspace s) \<in> set (dropWhile py_isspace s)"
      using ne by (rule hd_in_set)
    ultimately show False using a by blast
  qed
  then show "\<forall>c \<in> set s. py_isspace c" unfolding dropWhile_eq_Nil_conv .
next
  assume "\<forall>c \<in> set s. py_isspace c"
  then have "dropWhile py_isspace s = []" unfolding dropWhile_eq_Nil_conv .
  then show "py_strip s = []" by (simp only: py_strip_def rev.simps dropWhile.simps)
qed

lemma set_py_strip: "set (py_strip s) \<subseteq> set s"
proof -
  have "set (py_strip s) \<subseteq> set (dropWhile py_isspace s)"
    unfolding py_strip_def using set_dropWhileD by fastforce
  also have "\<dots> \<subseteq> set s" using set_dropWhileD by fastforce
  finally show ?thesis .
qed

lemma tokens_Nil_iff: "py_split (py_strip line) = [] \<longleftrightarrow> (\<forall>c \<in> set line. py_isspace c)"
proof
  assume "py_split (py_strip line) = []"
  then have a: "\<forall>c \<in> set (py_strip line). py_isspace c" by (simp add: py_split_Nil_iff)
  show "\<forall>c \<in> set line. py_isspace c"
  proof (rule ccontr)
    assume "\<not> ?thesis"
    then have ne: "py_strip line \<noteq> []" by (simp add: py_strip_Nil_iff)
    have "dropWhile py_isspace (rev (dropWhile py_isspace line)) \<noteq> []"
      using ne by (simp add: py_strip_def)
    then have "\<not> py_isspace (hd (dropWhile py_isspace (rev (dropWhile py_isspace line))))"
      by (rule hd_dropWhile)
    moreover have "hd (dropWhile py_isspace (rev (dropWhile py_isspace line))) \<in> set (py_strip line)"
      using ne by (simp add: py_strip_def)
    ultimately show False using a by blast
  qed
next
  assume "\<forall>c \<in> set line. py_isspace c"
  then have "py_strip line = []" by (simp add: py_strip_Nil_iff)
  then show "py_split (py_strip line) = []" by (simp add: py_split_Nil_iff)
qed

lemma load_line_blank:
  "py_split (py_strip line) = [] \<Longrightarrow> load_line d line = Inr d"
  by (simp add: load_line_def)

lemma load_line_one:
  "py_split (py_strip line) = [x] \<Longrightarrow> load_line d line = Inl IndexError"
  by (simp add: load_line_def list_getitem_def bindE_simps)

lemma load_line_pair:
  "py_split (py_strip line) = r # m # rest \<Longrightarrow> load_line d line = Inr (dict_setitem d m r)"
  by (simp add: load_line_def list_getitem_def bindE_simps)

lemma load_line_cases:
  obtains (blank) "py_split (py_strip line) = []" "load_line d line = Inr d"
  | (one) x where "py_split (py_strip line) = [x]" "load_line d line = Inl IndexError"
  | (pair) r m rest where "py_split (py_strip line) = r # m # rest"
      "load_line d line = Inr (dict_setitem d m r)"
proof (cases "py_split (py_strip line)")
  case Nil
  then show ?thesis using blank load_line_blank by blast
next
  case (Cons a as)
  show ?thesis
  proof (cases as)
    case Nil
    with Cons show ?thesis using one load_line_one by blast
  next
    case (Cons b bs)
    with \<open>py_split (py_strip line) = a # as\<close> show ?thesis using pair load_line_pair by blast
  qed
qed

lemma load_line_error: "load_line d line = Inl e \<Longrightarrow> e = IndexError"
  by (rule load_line_cases [of line d]) auto

lemma load_lines_error: "load_lines d lines = Inl e \<Longrightarrow> e = IndexError"
proof (induction lines arbitrary: d)
  case Nil
  then show ?case by simp
next
  case (Cons line rest)
  show ?case
  proof (cases "load_line d line")
    case (Inl e')
    with Cons.prems show ?thesis by (simp add: bindE_simps load_line_error)
  next
    case (Inr d')
    with Cons show ?thesis by (simp add: bindE_simps)
  qed
qed

lemma load_lines_total_iff:
  "(\<exists>d'. load_lines d lines = Inr d') \<longleftrightarrow> (\<forall>line \<in> set lines. length (py_split (py_strip line)) \<noteq> 1)"
proof (induction lines arbitrary: d)
  case Nil
  then show ?case by simp
next
  case (Cons line rest)
  show ?case
  proof (rule load_line_cases [of line d])
    assume "py_split (py_strip line) = []" "load_line d line = Inr d"
    then show ?thesis using Cons.IH [of d] by (simp add: bindE_simps)
  next
    fix x assume "py_split (py_strip line) = [x]" "load_line d line = Inl IndexError"
    then show ?thesis by (simp add: bindE_simps)
  next
    fix r m rest'
    assume "py_split (py_strip line) = r # m # rest'" "load_line d line = Inr (dict_setitem d m r)"
    then show ?thesis using Cons.IH [of "dict_setitem d m r"] by (simp add: bindE_simps)
  qed
qed

lemma load_lines_append:
  "load_lines d (xs @ ys) = bindE (load_lines d xs) (\<lambda>d'. load_lines d' ys)"
proof (induction xs arbitrary: d)
  case Nil
  then show ?case by (simp add: bindE_simps)
next
  case (Cons x xs)
  then show ?case by (cases "load_line d x") (simp_all add: bindE_simps)
qed

lemma load_lines_source:
  "load_lines d lines = Inr d' \<Longrightarrow> dict_get d' m = Some r \<Longrightarrow>
     dict_get d m = Some r \<or> (\<exists>line \<in> set lines. \<exists>rest. py_split (py_strip line) = r # m # rest)"
proof (induction lines arbitrary: d)
  case Nil
  then show ?case by simp
next
  case (Cons line rest)
  show ?case
  proof (rule load_line_cases [of line d])
    assume "py_split (py_strip line) = []" "load_line d line = Inr d"
    then show ?thesis using Cons by (auto simp: bindE_simps)
  next
    fix x assume "py_split (py_strip line) = [x]" "load_line d line = Inl IndexError"
    then show ?thesis using Cons.prems by (simp add: bindE_simps)
  next
    fix r' m' rest'
    assume t: "py_split (py_strip line) = r' # m' # rest'"
      and l: "load_line d line = Inr (dict_setitem d m' r')"
    from Cons.prems(1) l have "load_lines (dict_setitem d m' r') rest = Inr d'"
      by (simp add: bindE_simps)
    from Cons.IH [OF this Cons.prems(2)]
    show ?thesis
    proof
      assume "dict_get (dict_setitem d m' r') m = Some r"
      then show ?thesis using t by (auto simp: dict_get_setitem split: if_splits)
    next
      assume "\<exists>line \<in> set rest. \<exists>rest. py_split (py_strip line) = r # m # rest"
      then show ?thesis by auto
    qed
  qed
qed

lemma load_lines_keys:
  "load_lines d lines = Inr d' \<Longrightarrow>
     set (dict_keys d') = set (dict_keys d) \<union> {m. \<exists>line \<in> set lines. \<exists>r rest. py_split (py_strip line) = r # m # rest}"
proof (induction lines arbitrary: d)
  case Nil
  then show ?case by simp
next
  case (Cons line rest)
  show ?case
  proof (rule load_line_cases [of line d])
    assume "py_split (py_strip line) = []" "load_line d line = Inr d"
    then show ?thesis using Cons by (auto simp: bindE_simps)
  next
    fix x assume "py_split (py_strip line) = [x]" "load_line d line = Inl IndexError"
    then show ?thesis using Cons.prems by (simp add: bindE_simps)
  next
    fix r' m' rest'
    assume t: "py_split (py_strip line) = r' # m' # rest'"
      and l: "load_line d line = Inr (dict_setitem d m' r')"
    from Cons.prems(1) l have "load_lines (dict_setitem d m' r') rest = Inr d'"
      by (simp add: bindE_simps)
    from Cons.IH [OF this] t show ?thesis
      by (auto simp: dict_keys_setitem split: if_splits)
  qed
qed


lemma load_lines_untouched:
  "load_lines d lines = Inr d' \<Longrightarrow>
   \<forall>l \<in> set lines. \<forall>r rest. py_split (py_strip l) \<noteq> r # m # rest \<Longrightarrow>
   dict_get d' m = dict_get d m"
proof (induction lines arbitrary: d)
  case Nil
  then show ?case by simp
next
  case (Cons line rest)
  show ?case
  proof (rule load_line_cases [of line d])
    assume "py_split (py_strip line) = []" "load_line d line = Inr d"
    then show ?thesis using Cons by (auto simp: bindE_simps)
  next
    fix x assume "py_split (py_strip line) = [x]" "load_line d line = Inl IndexError"
    then show ?thesis using Cons.prems by (simp add: bindE_simps)
  next
    fix r' m' rest'
    assume t: "py_split (py_strip line) = r' # m' # rest'"
      and l: "load_line d line = Inr (dict_setitem d m' r')"
    from Cons.prems(1) l have a: "load_lines (dict_setitem d m' r') rest = Inr d'"
      by (simp add: bindE_simps)
    from Cons.prems(2) t have "m' \<noteq> m" by auto
    moreover from Cons.prems(2)
    have "\<forall>l \<in> set rest. \<forall>r rest. py_split (py_strip l) \<noteq> r # m # rest" by simp
    ultimately show ?thesis using Cons.IH [OF a] by (simp add: dict_get_setitem)
  qed
qed

lemma load_lines_last_write:
  assumes "load_lines d (pre @ line # post) = Inr d'"
    and "py_split (py_strip line) = r # m # rest"
    and "\<forall>l \<in> set post. \<forall>r' rest'. py_split (py_strip l) \<noteq> r' # m # rest'"
  shows "dict_get d' m = Some r"
proof -
  from assms(1) obtain d1 where d1: "load_lines d pre = Inr d1"
    and a: "load_lines d1 (line # post) = Inr d'"
    by (cases "load_lines d pre") (simp_all add: load_lines_append bindE_simps)
  from a assms(2) have "load_lines (dict_setitem d1 m r) post = Inr d'"
    by (simp add: load_line_pair bindE_simps)
  from load_lines_untouched [OF this assms(3)] show ?thesis
    by (simp add: dict_get_setitem)
qed

section \<open>A record read by tokens and by fields\<close>

text \<open>
  The loader reads a line by whitespace-delimited tokens, the size summary by tab-separated
  fields. On a record \<open>tsv_line r m\<close> whose identifiers are not empty and hold no whitespace
  the two readings agree: the first token and the first field are \<open>r\<close>, the second token
  and the second field are \<open>m\<close>.
\<close>

lemma tsv_line_fields:
  assumes "CHR 0x09 \<notin> set r" and "CHR 0x09 \<notin> set m"
  shows "cut_f1 (chomp (tsv_line r m)) = r" and "cut_f2 (chomp (tsv_line r m)) = m"
proof -
  have c: "chomp (tsv_line r m) = r @ CHR 0x09 # m"
    by (simp add: chomp_def tsv_line_def butlast_append)
  have t: "takeWhile (\<lambda>c. c \<noteq> CHR 0x09) (r @ CHR 0x09 # m) = r"
    using assms(1) by (induction r) auto
  have d: "dropWhile (\<lambda>c. c \<noteq> CHR 0x09) (r @ CHR 0x09 # m) = CHR 0x09 # m"
    using assms(1) by (induction r) auto
  have m: "takeWhile (\<lambda>c. c \<noteq> CHR 0x09) m = m"
    using assms(2) by (induction m) auto
  show "cut_f1 (chomp (tsv_line r m)) = r" using c t by (simp add: cut_f1_def)
  show "cut_f2 (chomp (tsv_line r m)) = m" using c d m by (simp add: cut_f2_def)
qed

lemma py_split_token:
  assumes "r \<noteq> []" and "\<forall>c \<in> set r. \<not> py_isspace c" and "rest = [] \<or> py_isspace (hd rest)"
  shows "py_split (r @ rest) = r # py_split rest"
proof -
  from assms(1) obtain c cs where r: "r = c # cs" by (cases r) auto
  with assms(2) have nc: "\<not> py_isspace c" and ncs: "\<forall>x \<in> set cs. \<not> py_isspace x" by simp_all
  have d: "dropWhile py_isspace ((c # cs) @ rest) = c # (cs @ rest)" using nc by simp
  have t: "takeWhile (\<lambda>x. \<not> py_isspace x) (cs @ rest) = cs"
  proof (cases rest)
    case Nil
    with ncs show ?thesis by simp
  next
    case (Cons y ys)
    with assms(3) have "py_isspace y" by simp
    with ncs Cons show ?thesis by simp
  qed
  have dr: "dropWhile (\<lambda>x. \<not> py_isspace x) (cs @ rest) = rest"
  proof (cases rest)
    case Nil
    with ncs show ?thesis by simp
  next
    case (Cons y ys)
    with assms(3) have "py_isspace y" by simp
    with ncs Cons show ?thesis by simp
  qed
  show ?thesis
    unfolding r by (subst py_split.simps) (simp only: d list.case t dr)
qed

lemma py_split_skip:
  "py_isspace c \<Longrightarrow> py_split (c # s) = py_split s"
  by (subst py_split.simps, subst (2) py_split.simps) simp

lemma py_strip_clean:
  assumes "s \<noteq> []" and "\<not> py_isspace (hd s)" and "\<not> py_isspace (last s)"
  shows "py_strip (s @ [CHR 0x0A]) = s"
proof -
  from assms(1,2) have a: "dropWhile py_isspace (s @ [CHR 0x0A]) = s @ [CHR 0x0A]"
    by (cases s) simp_all
  have sp: "py_isspace (CHR 0x0A)" by (simp add: py_isspace_def)
  from assms(1,3) have b: "dropWhile py_isspace (rev s) = rev s"
    by (cases s rule: rev_cases) simp_all
  show ?thesis by (simp add: py_strip_def a sp b)
qed

lemma tsv_line_tokens:
  assumes "r \<noteq> []" and "m \<noteq> []"
    and "\<forall>c \<in> set r. \<not> py_isspace c" and "\<forall>c \<in> set m. \<not> py_isspace c"
  shows "py_split (py_strip (tsv_line r m)) = [r, m]"
proof -
  have tab: "py_isspace (CHR 0x09)" by (simp add: py_isspace_def)
  have "tsv_line r m = (r @ CHR 0x09 # m) @ [CHR 0x0A]" by (simp add: tsv_line_def)
  moreover have "\<not> py_isspace (hd (r @ CHR 0x09 # m))" using assms(1,3) by (cases r) simp_all
  moreover have "\<not> py_isspace (last (r @ CHR 0x09 # m))" using assms(2,4) by simp
  ultimately have "py_strip (tsv_line r m) = r @ CHR 0x09 # m"
    using py_strip_clean [of "r @ CHR 0x09 # m"] by simp
  moreover have "py_split (r @ CHR 0x09 # m) = r # py_split (CHR 0x09 # m)"
    using assms(1,3) tab by (intro py_split_token) simp_all
  moreover have "py_split (CHR 0x09 # m) = py_split m" using tab by (rule py_split_skip)
  moreover have "py_split (m @ []) = m # py_split []"
    using assms(2,4) by (intro py_split_token) simp_all
  moreover have "py_split [] = []" by (simp add: py_split_Nil_iff)
  ultimately show ?thesis by simp
qed

lemma clean_table_members:
  assumes "\<forall>(r, m) \<in> set recs. r \<noteq> [] \<and> m \<noteq> []
      \<and> (\<forall>c \<in> set r. \<not> py_isspace c) \<and> (\<forall>c \<in> set m. \<not> py_isspace c)"
    and "load_table (map (\<lambda>(r, m). tsv_line r m) recs) = Inr d"
  shows "set (dict_keys d) = members (map (\<lambda>(r, m). tsv_line r m) recs)"
proof -
  have tab: "py_isspace (CHR 0x09)" by (simp add: py_isspace_def)
  have tok: "py_split (py_strip (tsv_line r m)) = [r, m]" if "(r, m) \<in> set recs" for r m
    using that assms(1) by (intro tsv_line_tokens) auto
  have fld: "cut_f2 (chomp (tsv_line r m)) = m" if "(r, m) \<in> set recs" for r m
  proof -
    from that assms(1) tab have "CHR 0x09 \<notin> set r" "CHR 0x09 \<notin> set m" by auto
    then show ?thesis by (rule tsv_line_fields)
  qed
  from assms(2) have "set (dict_keys d)
      = {m. \<exists>line \<in> set (map (\<lambda>(r, m). tsv_line r m) recs).
              \<exists>r rest. py_split (py_strip line) = r # m # rest}"
    using load_lines_keys [of "[]" _ d] by (simp add: load_table_def dict_keys_def)
  also have "\<dots> = snd ` set recs"
  proof (intro set_eqI iffI)
    fix m assume "m \<in> {m. \<exists>line \<in> set (map (\<lambda>(r, m). tsv_line r m) recs).
              \<exists>r rest. py_split (py_strip line) = r # m # rest}"
    then obtain r' m' r rest where "(r', m') \<in> set recs"
      "py_split (py_strip (tsv_line r' m')) = r # m # rest" by auto
    with tok [of r' m'] have "m = m'" by simp
    with \<open>(r', m') \<in> set recs\<close> show "m \<in> snd ` set recs" by force
  next
    fix m assume "m \<in> snd ` set recs"
    then obtain r where rm: "(r, m) \<in> set recs" by auto
    from tok [OF rm] have "py_split (py_strip (tsv_line r m)) = r # m # []" by simp
    with rm show "m \<in> {m. \<exists>line \<in> set (map (\<lambda>(r, m). tsv_line r m) recs).
              \<exists>r rest. py_split (py_strip line) = r # m # rest}"
      by force
  qed
  also have "\<dots> = members (map (\<lambda>(r, m). tsv_line r m) recs)"
    using fld by (force simp: members_def image_iff)
  finally show ?thesis .
qed

section \<open>Loading an assignment table: claims C8, C10 and C2\<close>

lemma tokens_tsv_XA: "py_split (py_strip (tsv_line ''A'' ''X'')) = [''A'', ''X'']"
  by (simp add: tsv_line_def py_strip_def py_split.simps py_isspace_def)

text \<open>
  Claim C8. On every record of an assignment table the first whitespace-delimited token
  is the representative and the second is the member, and the loaded lookup maps the
  member to the representative: an entry \<open>m \<mapsto> r\<close> of the loaded dictionary comes from a
  line whose first token is \<open>r\<close> and whose second is \<open>m\<close>; the second token of every
  record is a key; and a member listed under one representative only is mapped to it.
\<close>

theorem assignment_index_orientation:
  assumes "load_table lines = Inr d"
  shows "(\<forall>m r. dict_get d m = Some r \<longrightarrow>
            (\<exists>line \<in> set lines. \<exists>rest. py_split (py_strip line) = r # m # rest))
       \<and> (\<forall>line \<in> set lines. \<forall>r m rest. py_split (py_strip line) = r # m # rest \<longrightarrow>
            m \<in> set (dict_keys d) \<and>
            ((\<forall>l \<in> set lines. \<forall>r' rest'. py_split (py_strip l) = r' # m # rest' \<longrightarrow> r' = r) \<longrightarrow>
               dict_get d m = Some r))"
proof (intro conjI allI impI ballI)
  fix m r assume "dict_get d m = Some r"
  with load_lines_source [of "[]" lines d m r] assms
  show "\<exists>line \<in> set lines. \<exists>rest. py_split (py_strip line) = r # m # rest"
    by (simp add: load_table_def dict_get_def)
next
  fix line r m rest
  assume l: "line \<in> set lines" and t: "py_split (py_strip line) = r # m # rest"
  from assms have k: "set (dict_keys d) = {m. \<exists>line \<in> set lines. \<exists>r rest. py_split (py_strip line) = r # m # rest}"
    using load_lines_keys [of "[]" lines d] by (simp add: load_table_def dict_keys_def)
  from l t show "m \<in> set (dict_keys d)" unfolding k by blast
next
  fix line r m rest
  assume l: "line \<in> set lines" and t: "py_split (py_strip line) = r # m # rest"
    and u: "\<forall>l \<in> set lines. \<forall>r' rest'. py_split (py_strip l) = r' # m # rest' \<longrightarrow> r' = r"
  from assms have k: "set (dict_keys d) = {m. \<exists>line \<in> set lines. \<exists>r rest. py_split (py_strip line) = r # m # rest}"
    using load_lines_keys [of "[]" lines d] by (simp add: load_table_def dict_keys_def)
  from l t have "m \<in> set (dict_keys d)" unfolding k by blast
  then obtain r' where g: "dict_get d m = Some r'"
    using dict_get_None_iff [of d m] by (cases "dict_get d m") auto
  with load_lines_source [of "[]" lines d m r'] assms
  obtain l' rest' where "l' \<in> set lines" "py_split (py_strip l') = r' # m # rest'"
    by (auto simp: load_table_def dict_get_def)
  with u have "r' = r" by blast
  with g show "dict_get d m = Some r" by simp
qed

theorem assignment_index_orientation_witness:
  "load_table [tsv_line ''A'' ''X''] = Inr [(''X'', ''A'')]
   \<and> dict_get [(''X'', ''A'')] ''X'' = Some ''A''
   \<and> ''X'' \<in> set (dict_keys [(''X'', ''A'')])"
proof -
  have l: "load_table [tsv_line ''A'' ''X''] = Inr [(''X'', ''A'')]"
    by (simp add: load_table_def load_line_def tokens_tsv_XA list_getitem_def bindE_simps)
  from assignment_index_orientation [OF l]
  have "\<forall>line \<in> set [tsv_line ''A'' ''X'']. \<forall>r m rest. py_split (py_strip line) = r # m # rest \<longrightarrow>
            m \<in> set (dict_keys [(''X'', ''A'')]) \<and>
            ((\<forall>l \<in> set [tsv_line ''A'' ''X'']. \<forall>r' rest'. py_split (py_strip l) = r' # m # rest' \<longrightarrow> r' = r) \<longrightarrow>
               dict_get [(''X'', ''A'')] m = Some r)"
    by blast
  then have "''X'' \<in> set (dict_keys [(''X'', ''A'')]) \<and> dict_get [(''X'', ''A'')] ''X'' = Some ''A''"
    using tokens_tsv_XA by simp
  with l show ?thesis by simp
qed

lemma tokens_tsv_XB: "py_split (py_strip (tsv_line ''B'' ''X'')) = [''B'', ''X'']"
  by (simp add: tsv_line_def py_strip_def py_split.simps py_isspace_def)

lemma load_table_error: "load_table lines = Inl e \<Longrightarrow> e = IndexError"
  unfolding load_table_def by (rule load_lines_error)

lemma tokens_len_two:
  "((\<exists>c \<in> set line. \<not> py_isspace c) \<longrightarrow> 2 \<le> length (py_split (py_strip line)))
   \<longleftrightarrow> length (py_split (py_strip line)) \<noteq> 1"
proof -
  have "length (py_split (py_strip line)) = 0 \<longleftrightarrow> (\<forall>c \<in> set line. py_isspace c)"
    using tokens_Nil_iff [of line] by simp
  then show ?thesis by (cases "length (py_split (py_strip line))") auto
qed

text \<open>
  Claim C10. A blank or whitespace-only line is skipped and creates no entry; tokens
  after the second are ignored; a line with exactly one token raises \<^verbatim>\<open>IndexError\<close>;
  and a table loads exactly when each of its lines that is not blank has at least two
  tokens, the only error of a load being that \<^verbatim>\<open>IndexError\<close>.
\<close>

theorem load_table_malformed_lines:
  "((\<forall>c \<in> set line. py_isspace c) \<longrightarrow> load_line d line = Inr d)
   \<and> (\<forall>r m rest. py_split (py_strip line) = r # m # rest \<longrightarrow>
        load_line d line = Inr (dict_setitem d m r))
   \<and> (length (py_split (py_strip line)) = 1 \<longrightarrow> load_line d line = Inl IndexError)
   \<and> ((\<exists>d'. load_table lines = Inr d') \<longleftrightarrow>
        (\<forall>l \<in> set lines. (\<exists>c \<in> set l. \<not> py_isspace c) \<longrightarrow> 2 \<le> length (py_split (py_strip l))))
   \<and> ((\<exists>l \<in> set lines. length (py_split (py_strip l)) = 1) \<longrightarrow> load_table lines = Inl IndexError)"
proof (intro conjI)
  show "(\<forall>c \<in> set line. py_isspace c) \<longrightarrow> load_line d line = Inr d"
    using tokens_Nil_iff [of line] load_line_blank [of line d] by blast
  show "\<forall>r m rest. py_split (py_strip line) = r # m # rest \<longrightarrow>
        load_line d line = Inr (dict_setitem d m r)"
    using load_line_pair by blast
  show "length (py_split (py_strip line)) = 1 \<longrightarrow> load_line d line = Inl IndexError"
  proof
    assume "length (py_split (py_strip line)) = 1"
    then obtain x where "py_split (py_strip line) = [x]"
      by (cases "py_split (py_strip line)") auto
    then show "load_line d line = Inl IndexError" by (rule load_line_one)
  qed
  have total: "(\<exists>d'. load_table lines = Inr d') \<longleftrightarrow>
      (\<forall>l \<in> set lines. length (py_split (py_strip l)) \<noteq> 1)"
    unfolding load_table_def by (rule load_lines_total_iff)
  show "(\<exists>d'. load_table lines = Inr d') \<longleftrightarrow>
        (\<forall>l \<in> set lines. (\<exists>c \<in> set l. \<not> py_isspace c) \<longrightarrow> 2 \<le> length (py_split (py_strip l)))"
    unfolding total using tokens_len_two by blast
  show "(\<exists>l \<in> set lines. length (py_split (py_strip l)) = 1) \<longrightarrow> load_table lines = Inl IndexError"
  proof
    assume "\<exists>l \<in> set lines. length (py_split (py_strip l)) = 1"
    with total have "\<not> (\<exists>d'. load_table lines = Inr d')" by blast
    then obtain e where "load_table lines = Inl e" by (cases "load_table lines") auto
    then show "load_table lines = Inl IndexError" using load_table_error by blast
  qed
qed

theorem load_table_malformed_lines_witness:
  "load_line [(''X'', ''A'')] ''   '' = Inr [(''X'', ''A'')]
   \<and> load_line [] ''A X extra tokens'' = Inr [(''X'', ''A'')]
   \<and> load_line [] ''A'' = Inl IndexError
   \<and> load_table [''A X'', '''', ''B''] = Inl IndexError
   \<and> (\<exists>d'. load_table [''A X'', '' '', ''B Y Z''] = Inr d')"
proof -
  have s: "\<forall>c \<in> set ''   ''. py_isspace c" by (simp add: py_isspace_def)
  have t2: "py_split (py_strip ''A X extra tokens'') = ''A'' # ''X'' # [''extra'', ''tokens'']"
    by (simp add: py_strip_def py_split.simps py_isspace_def)
  have t1: "length (py_split (py_strip ''A'')) = 1"
    by (simp add: py_strip_def py_split.simps py_isspace_def)
  have t3: "\<exists>l \<in> set [''A X'', '''', ''B'']. length (py_split (py_strip l)) = 1"
    by (simp add: py_strip_def py_split.simps py_isspace_def)
  have t4: "\<forall>l \<in> set [''A X'', '' '', ''B Y Z'']. (\<exists>c \<in> set l. \<not> py_isspace c) \<longrightarrow> 2 \<le> length (py_split (py_strip l))"
    by (simp add: py_strip_def py_split.simps py_isspace_def)
  from load_table_malformed_lines [of "''   ''" "[(''X'', ''A'')]" "[]"] s
  have 1: "load_line [(''X'', ''A'')] ''   '' = Inr [(''X'', ''A'')]" by blast
  from load_table_malformed_lines [of "''A X extra tokens''" "[]" "[]"] t2
  have 2: "load_line [] ''A X extra tokens'' = Inr [(''X'', ''A'')]" by simp
  from load_table_malformed_lines [of "''A''" "[]" "[]"] t1
  have 3: "load_line [] ''A'' = Inl IndexError" by blast
  from load_table_malformed_lines [of "[]" "[]" "[''A X'', '''', ''B'']"] t3
  have 4: "load_table [''A X'', '''', ''B''] = Inl IndexError" by blast
  from load_table_malformed_lines [of "[]" "[]" "[''A X'', '' '', ''B Y Z'']"] t4
  have 5: "\<exists>d'. load_table [''A X'', '' '', ''B Y Z''] = Inr d'" by blast
  from 1 2 3 4 5 show ?thesis by blast
qed

text \<open>
  Claim C2, as amended. A member identifier on two records raises nothing: when every
  line that is not blank has two tokens the table loads, and the lookup holds for a member
  the representative of the last record that lists it.
\<close>

theorem duplicate_member_last_write_wins:
  assumes "\<forall>l \<in> set (pre @ line # post). length (py_split (py_strip l)) \<noteq> 1"
    and "py_split (py_strip line) = r # m # rest"
    and "\<forall>l \<in> set post. \<forall>r' rest'. py_split (py_strip l) \<noteq> r' # m # rest'"
  shows "\<exists>d. load_table (pre @ line # post) = Inr d \<and> dict_get d m = Some r"
proof -
  from assms(1) obtain d where d: "load_lines [] (pre @ line # post) = Inr d"
    using load_lines_total_iff [of "[]" "pre @ line # post"] by blast
  from load_lines_last_write [OF d assms(2) assms(3)] d show ?thesis
    by (simp add: load_table_def)
qed

theorem duplicate_member_last_write_wins_witness:
  "\<exists>d. load_table ([tsv_line ''A'' ''X''] @ tsv_line ''B'' ''X'' # []) = Inr d
       \<and> dict_get d ''X'' = Some ''B''"
proof -
  have 1: "\<forall>l \<in> set ([tsv_line ''A'' ''X''] @ tsv_line ''B'' ''X'' # []).
      length (py_split (py_strip l)) \<noteq> 1"
    by (simp add: tokens_tsv_XA tokens_tsv_XB)
  have 2: "py_split (py_strip (tsv_line ''B'' ''X'')) = ''B'' # ''X'' # []"
    by (simp add: tokens_tsv_XB)
  have 3: "\<forall>l \<in> set []. \<forall>r' rest'. py_split (py_strip l) \<noteq> r' # ''X'' # rest'" by simp
  from duplicate_member_last_write_wins [OF 1 2 3] show ?thesis .
qed

text \<open>
  Claim C2 as written fails: a table that lists member \<open>X\<close> under \<open>A\<close> and then under
  \<open>B\<close> loads without an error, and the lookup keeps the representative written last.
\<close>

theorem duplicate_member_counterexample:
  "load_table [tsv_line ''A'' ''X'', tsv_line ''B'' ''X''] = Inr [(''X'', ''B'')]"
  by (simp add: load_table_def load_line_def tokens_tsv_XA tokens_tsv_XB list_getitem_def bindE_simps)

section \<open>Resolving chains and writing the manifest: claims C1, C4, C5 and C9\<close>

lemma manifest_row_resolve:
  "manifest_row cd c = bindE (resolve_chain cd (tl thresholds) c) (\<lambda>r. Inr (c # r))"
  by (simp add: manifest_row_def thresholds_def bindE_def split: sum.splits)


lemma resolve_chain_collapse:
  "resolve_chain cd ts a = Inr ra \<Longrightarrow> resolve_chain cd ts b = Inr rb \<Longrightarrow>
   i < length ts \<Longrightarrow> ra ! i = rb ! i \<Longrightarrow> drop i ra = drop i rb"
proof (induction ts arbitrary: a b ra rb i)
  case Nil
  then show ?case by simp
next
  case (Cons t ts)
  from Cons.prems(1) obtain x ra' where
    a: "ra = x # ra'" "resolve_chain cd ts x = Inr ra'"
    by (auto simp: bindE_def split: sum.splits)
  from Cons.prems(2) obtain y rb' where
    b: "rb = y # rb'" "resolve_chain cd ts y = Inr rb'"
    by (auto simp: bindE_def split: sum.splits)
  show ?case
  proof (cases i)
    case 0
    with Cons.prems(4) a b have "x = y" by simp
    with a b have "ra = rb" by simp
    then show ?thesis by simp
  next
    case (Suc j)
    with Cons.prems a b have "j < length ts" "ra' ! j = rb' ! j" by simp_all
    from Cons.IH [OF a(2) b(2) this] Suc a b show ?thesis by simp
  qed
qed

















text \<open>
  Claim C1. Two identifiers whose rows carry the same representative in the column of a
  level have identical rows from that column on, that is at that level and at every
  coarser one.
\<close>

theorem monotonic_collapse:
  assumes "manifest_row cd a = Inr ra" and "manifest_row cd b = Inr rb"
    and "i < length thresholds" and "ra ! i = rb ! i"
  shows "drop i ra = drop i rb"
proof -
  from assms(1) obtain va where va: "resolve_chain cd (tl thresholds) a = Inr va" "ra = a # va"
    unfolding manifest_row_resolve by (cases "resolve_chain cd (tl thresholds) a") (auto simp: bindE_simps)
  from assms(2) obtain vb where vb: "resolve_chain cd (tl thresholds) b = Inr vb" "rb = b # vb"
    unfolding manifest_row_resolve by (cases "resolve_chain cd (tl thresholds) b") (auto simp: bindE_simps)
  show ?thesis
  proof (cases i)
    case 0
    with assms(4) va(2) vb(2) have "a = b" by simp
    with assms(1,2) have "ra = rb" by simp
    then show ?thesis by simp
  next
    case (Suc j)
    with assms(3) have j: "j < length (tl thresholds)" by simp
    from Suc assms(4) va(2) vb(2) have "va ! j = vb ! j" by simp
    from resolve_chain_collapse [OF va(1) vb(1) j this] Suc va(2) vb(2) show ?thesis by simp
  qed
qed

theorem monotonic_collapse_witness:
  "manifest_row example_dicts ''id_01'' = Inr [''id_01'', ''id_01'', ''id_01'', ''id_01'', ''id_01'', ''id_01'', ''id_03'']
   \<and> manifest_row example_dicts ''id_02'' = Inr [''id_02'', ''id_01'', ''id_01'', ''id_01'', ''id_01'', ''id_01'', ''id_03'']
   \<and> (1::nat) < length thresholds
   \<and> drop 1 [''id_01'', ''id_01'', ''id_01'', ''id_01'', ''id_01'', ''id_01'', ''id_03'']
     = drop 1 [''id_02'', ''id_01'', ''id_01'', ''id_01'', ''id_01'', ''id_01'', ''id_03'']"
proof -
  have a: "manifest_row example_dicts ''id_01'' = Inr [''id_01'', ''id_01'', ''id_01'', ''id_01'', ''id_01'', ''id_01'', ''id_03'']"
    by code_simp
  have b: "manifest_row example_dicts ''id_02'' = Inr [''id_02'', ''id_01'', ''id_01'', ''id_01'', ''id_01'', ''id_01'', ''id_03'']"
    by code_simp
  have i: "(1::nat) < length thresholds" by (simp add: thresholds_def)
  have e: "[''id_01'', ''id_01'', ''id_01'', ''id_01'', ''id_01'', ''id_01'', ''id_03''] ! 1
     = [''id_02'', ''id_01'', ''id_01'', ''id_01'', ''id_01'', ''id_01'', ''id_03''] ! 1" by simp
  from monotonic_collapse [OF a b i e] a b i show ?thesis by blast
qed









text \<open>
  Claim C9. On the mock assignments of the notebook, which are what the loader makes of
  the seven mock tables, the manifest is the header, one \<open>antiref\<close> column per threshold in
  descending order, and the five rows of the documented table; the row of \<open>id_02\<close> reads
  \<open>id_02,id_01,id_01,id_01,id_01,id_01,id_03\<close>.
\<close>

theorem reference_example:
  "load_cluster_dicts example_fs thresholds = Inr example_dicts
   \<and> manifest_writer thresholds example_dicts =
     ([''antiref100,antiref99,antiref98,antiref96,antiref94,antiref92,antiref90\<newline>'',
       ''id_01,id_01,id_01,id_01,id_01,id_01,id_03\<newline>'',
       ''id_02,id_01,id_01,id_01,id_01,id_01,id_03\<newline>'',
       ''id_03,id_03,id_03,id_03,id_03,id_03,id_03\<newline>'',
       ''id_04,id_04,id_04,id_04,id_04,id_04,id_04\<newline>'',
       ''id_05,id_05,id_05,id_05,id_05,id_05,id_05\<newline>''], None)"
  by code_simp

section \<open>A failing clustering step: claim C3\<close>

lemma linclust_cmd_logged [simp]: "linclust_cmd (logged env) t p tmp = linclust_cmd env t p tmp"
  by (simp add: linclust_cmd_def logged_def)

lemma ensure_dirs_total:
  "\<forall>d w. \<exists>w'. make_dir env d w = Inr w' \<Longrightarrow> \<exists>w'. ensure_dirs env paths w = Inr w'"
proof (induction paths arbitrary: w)
  case Nil
  then show ?case by simp
next
  case (Cons path rest)
  show ?case
  proof (cases "isdir env w (dirname path)")
    case True
    with Cons show ?thesis by simp
  next
    case False
    from Cons.prems obtain w1 where "make_dir env (dirname path) w = Inr w1" by blast
    with False Cons show ?thesis by (simp add: bindE_simps)
  qed
qed

lemma ensure_dirs_logged:
  "\<forall>d w. \<exists>w'. make_dir env d w = Inr w' \<Longrightarrow>
   \<exists>w'. ensure_dirs (logged env) paths (w, cmds) = Inr (w', cmds)"
proof (induction paths arbitrary: w)
  case Nil
  then show ?case by simp
next
  case (Cons path rest)
  show ?case
  proof (cases "isdir env w (dirname path)")
    case True
    with Cons show ?thesis by (simp add: logged_def)
  next
    case False
    from Cons.prems obtain w1 where w1: "make_dir env (dirname path) w = Inr w1" by blast
    from Cons.IH [OF Cons.prems, of w1] obtain w' where
      "ensure_dirs (logged env) rest (w1, cmds) = Inr (w', cmds)" by blast
    with False w1 show ?thesis by (simp add: logged_def bindE_simps)
  qed
qed

lemma linclust_returns:
  assumes "\<forall>d w. \<exists>w'. make_dir env d w = Inr w'"
  shows "\<exists>r w'. linclust env t p tmp debug w = Inr (r, w') \<and> (\<not> debug \<longrightarrow> r = None)"
proof -
  from ensure_dirs_total [OF assms] obtain w1 where
    "ensure_dirs env [''./data/antiref/clusterdb/antiref'' @ str_int t,
       ''./data/antiref/seqdb/antiref'' @ str_int t,
       ''./data/antiref/tsv/antiref'' @ str_int t @ ''.tsv'',
       ''./data/antiref/fasta/antiref'' @ str_int t @ ''.fasta''] w = Inr w1"
    by blast
  then show ?thesis
    by (simp add: linclust_def bindE_simps Let_def split: prod.splits)
qed

lemma linclust_logged:
  assumes "\<forall>d w. \<exists>w'. make_dir env d w = Inr w'"
  shows "\<exists>w'. linclust (logged env) t p tmp False (w, cmds)
           = Inr (None, (w', cmds @ [linclust_cmd env t p tmp]))"
proof -
  from ensure_dirs_logged [OF assms] obtain w1 where
    "ensure_dirs (logged env) [''./data/antiref/clusterdb/antiref'' @ str_int t,
       ''./data/antiref/seqdb/antiref'' @ str_int t,
       ''./data/antiref/tsv/antiref'' @ str_int t @ ''.tsv'',
       ''./data/antiref/fasta/antiref'' @ str_int t @ ''.fasta''] (w, cmds) = Inr (w1, cmds)"
    by blast
  then show ?thesis
    by (simp add: linclust_def bindE_simps Let_def split: prod.splits) (simp add: logged_def)
qed

lemma pipeline_loop_logged:
  assumes "\<forall>d w. \<exists>w'. make_dir env d w = Inr w'"
    and "\<forall>t \<in> set ths. t \<in> set (dict_keys lookup)"
  shows "\<exists>w'. pipeline_loop (logged env) lookup ths (w, cmds)
           = Inr (w', cmds @ map (\<lambda>t. linclust_cmd env t (the (dict_get lookup t)) ''/tmp'') ths)"
  using assms(2)
proof (induction ths arbitrary: w cmds)
  case Nil
  then show ?case by simp
next
  case (Cons t ts)
  from Cons.prems have "t \<in> set (dict_keys lookup)" by simp
  then obtain p where p: "dict_get lookup t = Some p"
    using dict_get_None_iff [of lookup t] by (cases "dict_get lookup t") auto
  obtain w2 where w2: "print (logged env) (''  - parent: '' @ p)
      (print (logged env) (''clustering at '' @ fmt_div100 t @ '' identity using linclust...'') (w, cmds))
      = (w2, cmds)"
    by (simp add: logged_def)
  from linclust_logged [OF assms(1), of t p "''/tmp''" w2 cmds] obtain w3 where
    w3: "linclust (logged env) t p ''/tmp'' False (w2, cmds)
           = Inr (None, (w3, cmds @ [linclust_cmd env t p ''/tmp'']))" by blast
  from Cons.prems have "\<forall>t \<in> set ts. t \<in> set (dict_keys lookup)" by simp
  from Cons.IH [OF this, of w3 "cmds @ [linclust_cmd env t p ''/tmp'']"] obtain w' where
    "pipeline_loop (logged env) lookup ts (w3, cmds @ [linclust_cmd env t p ''/tmp''])
       = Inr (w', (cmds @ [linclust_cmd env t p ''/tmp''])
                @ map (\<lambda>t. linclust_cmd env t (the (dict_get lookup t)) ''/tmp'') ts)"
    by blast
  with p w2 w3 show ?case by (simp add: getitem_int_def bindE_simps Let_def)
qed

text \<open>
  Claim C3, as amended. \<^verbatim>\<open>linclust\<close> does not read the exit status of the command line
  nor look for its output files: whatever \<^verbatim>\<open>Popen\<close> yields, and provided creating the
  directories raises nothing, it returns, with \<^verbatim>\<open>None\<close> unless \<^verbatim>\<open>debug\<close> is set; and the
  loop over the thresholds, each of which has a parent in the lookup, raises nothing and
  launches the command line of every threshold, in order.
\<close>

theorem clustering_failure_goes_unnoticed:
  assumes "\<forall>d w. \<exists>w'. make_dir env d w = Inr w'"
    and "\<forall>t \<in> set ths. t \<in> set (dict_keys lookup)"
  shows "(\<exists>r w'. linclust env t p tmp debug w = Inr (r, w') \<and> (\<not> debug \<longrightarrow> r = None))
     \<and> (\<exists>w'. pipeline_loop (logged env) lookup ths (w, cmds)
           = Inr (w', cmds @ map (\<lambda>t. linclust_cmd env t (the (dict_get lookup t)) ''/tmp'') ths))"
  using linclust_returns [OF assms(1)] pipeline_loop_logged [OF assms] by blast

lemma failing_make_dir: "\<forall>d w. \<exists>w'. make_dir failing_env d w = Inr w'"
  by (simp add: failing_env_def)

lemma parents_known: "\<forall>t \<in> set thresholds. t \<in> set (dict_keys parent_lookup)"
  by (simp add: thresholds_def parent_lookup_def dict_keys_def)

theorem clustering_failure_goes_unnoticed_witness:
  "(\<exists>r w'. linclust failing_env 99 ''./data/antiref/seqdb/antiref100'' ''/tmp'' False () = Inr (r, w')
      \<and> r = None)
   \<and> (\<exists>w'. pipeline_loop (logged failing_env) parent_lookup thresholds ((), [])
         = Inr (w', map (\<lambda>t. linclust_cmd failing_env t (the (dict_get parent_lookup t)) ''/tmp'') thresholds))"
  using clustering_failure_goes_unnoticed [OF failing_make_dir parents_known,
      where t = 99 and p = "''./data/antiref/seqdb/antiref100''" and tmp = "''/tmp''"
        and debug = False and w = "()" and cmds = "[]"]
  by simp

text \<open>
  Claim C3 as written fails: on a machine where every command line exits with status 1,
  the step at threshold 100 returns \<^verbatim>\<open>None\<close> as on success, and the loop goes on to launch
  the six remaining steps.
\<close>

theorem clustering_failure_counterexample:
  "returncode (fst (popen failing_env
       (linclust_cmd failing_env 100 ''./data/antiref/seqdb/init'' ''/tmp'') ())) = 1
   \<and> linclust failing_env 100 ''./data/antiref/seqdb/init'' ''/tmp'' False () = Inr (None, ())
   \<and> pipeline_loop (logged failing_env) parent_lookup thresholds ((), [])
     = Inr ((), [linclust_cmd failing_env 100 ''./data/antiref/seqdb/init'' ''/tmp'',
                 linclust_cmd failing_env 99 ''./data/antiref/seqdb/antiref100'' ''/tmp'',
                 linclust_cmd failing_env 98 ''./data/antiref/seqdb/antiref99'' ''/tmp'',
                 linclust_cmd failing_env 96 ''./data/antiref/seqdb/antiref98'' ''/tmp'',
                 linclust_cmd failing_env 94 ''./data/antiref/seqdb/antiref96'' ''/tmp'',
                 linclust_cmd failing_env 92 ''./data/antiref/seqdb/antiref94'' ''/tmp'',
                 linclust_cmd failing_env 90 ''./data/antiref/seqdb/antiref92'' ''/tmp''])"
proof (intro conjI)
  show "returncode (fst (popen failing_env
       (linclust_cmd failing_env 100 ''./data/antiref/seqdb/init'' ''/tmp'') ())) = 1"
    by (simp add: failing_env_def)
  show "linclust failing_env 100 ''./data/antiref/seqdb/init'' ''/tmp'' False () = Inr (None, ())"
    by (simp add: linclust_def failing_env_def bindE_simps)
  show "pipeline_loop (logged failing_env) parent_lookup thresholds ((), [])
     = Inr ((), [linclust_cmd failing_env 100 ''./data/antiref/seqdb/init'' ''/tmp'',
                 linclust_cmd failing_env 99 ''./data/antiref/seqdb/antiref100'' ''/tmp'',
                 linclust_cmd failing_env 98 ''./data/antiref/seqdb/antiref99'' ''/tmp'',
                 linclust_cmd failing_env 96 ''./data/antiref/seqdb/antiref98'' ''/tmp'',
                 linclust_cmd failing_env 94 ''./data/antiref/seqdb/antiref96'' ''/tmp'',
                 linclust_cmd failing_env 92 ''./data/antiref/seqdb/antiref94'' ''/tmp'',
                 linclust_cmd failing_env 90 ''./data/antiref/seqdb/antiref92'' ''/tmp''])"
    using pipeline_loop_logged [OF failing_make_dir parents_known, of "()" "[]"]
    by (simp add: thresholds_def parent_lookup_def dict_get_def)
qed

section \<open>The efficiency ratios: claim C6\<close>









section \<open>The cluster counts: claim C7\<close>

lemma uniq_c_Nil_iff: "uniq_c xs = [] \<longleftrightarrow> xs = []"
  by (cases xs) (auto split: list.splits)

lemma uniq_c_hd: "xs \<noteq> [] \<Longrightarrow> snd (hd (uniq_c xs)) = hd xs"
  by (cases xs) (auto split: list.splits)

lemma length_uniq_c_sorted:
  "sorted xs \<Longrightarrow> length (uniq_c xs) = card (set xs)"
proof (induction xs)
  case Nil
  then show ?case by simp
next
  case (Cons x xs)
  then have ih: "length (uniq_c xs) = card (set xs)" by simp
  show ?case
  proof (cases xs)
    case Nil
    then show ?thesis by simp
  next
    case (Cons y ys)
    then have ne: "xs \<noteq> []" by simp
    then obtain n z rest where u: "uniq_c xs = (n, z) # rest"
      using uniq_c_Nil_iff [of xs] by (cases "uniq_c xs") auto
    with uniq_c_hd [OF ne] Cons have z: "z = y" by simp
    show ?thesis
    proof (cases "x = y")
      case True
      with u z have "length (uniq_c (x # xs)) = length (uniq_c xs)" by simp
      moreover from True Cons have "set (x # xs) = set xs" by auto
      ultimately show ?thesis using ih by simp
    next
      case False
      with u z have "length (uniq_c (x # xs)) = Suc (length (uniq_c xs))" by simp
      moreover have "x \<notin> set xs"
      proof
        assume "x \<in> set xs"
        with Cons.prems Cons False have "x \<in> set ys" "y \<le> x" "x \<le> y" by auto
        with False show False by simp
      qed
      ultimately show ?thesis using ih by simp
    qed
  qed
qed

lemma cluster_count_card: "cluster_count seq_tsv = card (representatives seq_tsv)"
  by (simp add: cluster_count_def cluster_sizes_def representatives_def length_uniq_c_sorted)

lemma card_representatives_le:
  assumes "one_representative_per_member seq_tsv"
  shows "card (representatives seq_tsv) \<le> card (members seq_tsv)"
proof -
  let ?rep = "\<lambda>m. cut_f1 (chomp (SOME l. l \<in> set seq_tsv \<and> cut_f2 (chomp l) = m))"
  have one: "\<And>a b. a \<in> set seq_tsv \<Longrightarrow> b \<in> set seq_tsv \<Longrightarrow>
      cut_f2 (chomp a) = cut_f2 (chomp b) \<Longrightarrow> cut_f1 (chomp a) = cut_f1 (chomp b)"
    using assms unfolding one_representative_per_member_def by blast
  have "representatives seq_tsv \<subseteq> ?rep ` members seq_tsv"
  proof
    fix r assume "r \<in> representatives seq_tsv"
    then obtain l where l: "l \<in> set seq_tsv" "r = cut_f1 (chomp l)"
      by (auto simp: representatives_def)
    let ?m = "cut_f2 (chomp l)"
    let ?l' = "SOME l'. l' \<in> set seq_tsv \<and> cut_f2 (chomp l') = ?m"
    have "?l' \<in> set seq_tsv \<and> cut_f2 (chomp ?l') = ?m"
      by (rule someI [of _ l]) (simp add: l(1))
    then have "cut_f1 (chomp ?l') = cut_f1 (chomp l)"
      using one [OF _ l(1)] by blast
    with l(2) have "r = ?rep ?m" by (simp only:)
    moreover from l(1) have "?m \<in> members seq_tsv" by (simp add: members_def)
    ultimately show "r \<in> ?rep ` members seq_tsv" by blast
  qed
  moreover have "finite (members seq_tsv)" by (simp add: members_def)
  ultimately show ?thesis by (rule surj_card_le [rotated])
qed

lemma cluster_count_step:
  assumes "one_representative_per_member t'" and "members t' = representatives t"
  shows "cluster_count t' \<le> cluster_count t"
  using card_representatives_le [OF assms(1)] assms(2) by (simp add: cluster_count_card)

text \<open>
  Claim C7, as amended. Take the tables of the levels in the order of the thresholds,
  finest first. If in every table no member is listed under two representatives, and
  the members of every table after the first are the representatives of the table
  before it, then the cluster counts, the numbers of rows of the size summaries, do not
  increase along the sequence.
\<close>

theorem count_monotonicity:
  assumes "\<forall>i. Suc i < length tables \<longrightarrow> members (tables ! Suc i) = representatives (tables ! i)"
    and "\<forall>t \<in> set tables. one_representative_per_member t"
  shows "\<forall>i j. i \<le> j \<and> j < length tables \<longrightarrow>
           cluster_count (tables ! j) \<le> cluster_count (tables ! i)"
proof (intro allI impI)
  fix i j :: nat
  assume "i \<le> j \<and> j < length tables"
  then have "i \<le> j" "j < length tables" by simp_all
  then show "cluster_count (tables ! j) \<le> cluster_count (tables ! i)"
  proof (induction j)
    case 0
    then show ?case by simp
  next
    case (Suc k)
    show ?case
    proof (cases "i = Suc k")
      case True
      then show ?thesis by simp
    next
      case False
      with Suc.prems have ik: "i \<le> k" and k: "k < length tables" by simp_all
      from Suc.prems(2) assms(1) have "members (tables ! Suc k) = representatives (tables ! k)"
        by simp
      moreover from Suc.prems(2) assms(2) have "one_representative_per_member (tables ! Suc k)"
        by simp
      ultimately have "cluster_count (tables ! Suc k) \<le> cluster_count (tables ! k)"
        by (rule cluster_count_step [rotated])
      with Suc.IH [OF ik k] show ?thesis by simp
    qed
  qed
qed

theorem count_monotonicity_witness:
  "members [tsv_line ''A'' ''A'', tsv_line ''A'' ''B'', tsv_line ''C'' ''C'']
     = representatives [tsv_line ''A'' ''A'', tsv_line ''B'' ''B'', tsv_line ''C'' ''C'']
   \<and> one_representative_per_member [tsv_line ''A'' ''A'', tsv_line ''A'' ''B'', tsv_line ''C'' ''C'']
   \<and> cluster_count [tsv_line ''A'' ''A'', tsv_line ''A'' ''B'', tsv_line ''C'' ''C'']
     \<le> cluster_count [tsv_line ''A'' ''A'', tsv_line ''B'' ''B'', tsv_line ''C'' ''C'']
   \<and> cluster_count [tsv_line ''A'' ''A'', tsv_line ''A'' ''B'', tsv_line ''C'' ''C''] = 2
   \<and> cluster_count [tsv_line ''A'' ''A'', tsv_line ''B'' ''B'', tsv_line ''C'' ''C''] = 3"
proof -
  let ?t0 = "[tsv_line ''A'' ''A'', tsv_line ''B'' ''B'', tsv_line ''C'' ''C'']"
  let ?t1 = "[tsv_line ''A'' ''A'', tsv_line ''A'' ''B'', tsv_line ''C'' ''C'']"
  have m: "members ?t1 = representatives ?t0" by code_simp
  have f0: "one_representative_per_member ?t0" by code_simp
  have f1: "one_representative_per_member ?t1" by code_simp
  have c0: "cluster_count ?t0 = 3" by code_simp
  have c1: "cluster_count ?t1 = 2" by code_simp
  have 1: "\<forall>i. Suc i < length [?t0, ?t1] \<longrightarrow>
      members ([?t0, ?t1] ! Suc i) = representatives ([?t0, ?t1] ! i)"
    using m by simp
  have 2: "\<forall>t \<in> set [?t0, ?t1]. one_representative_per_member t"
    using f0 f1 by simp
  from count_monotonicity [OF 1 2, rule_format, of 0 1]
  have "cluster_count ([?t0, ?t1] ! 1) \<le> cluster_count ([?t0, ?t1] ! 0)"
    by simp
  then have "cluster_count ?t1 \<le> cluster_count ?t0" by simp
  with m f1 c0 c1 show ?thesis by simp
qed

text \<open>
  Claim C7 as written fails: the only member of the second table is the only
  representative of the first, yet the second table lists it under two representatives
  and its size summary has two rows where the first has one.
\<close>

theorem count_monotonicity_counterexample:
  "members [tsv_line ''A'' ''A'', tsv_line ''B'' ''A''] = representatives [tsv_line ''A'' ''A'']
   \<and> cluster_count [tsv_line ''A'' ''A''] = 1
   \<and> cluster_count [tsv_line ''A'' ''A'', tsv_line ''B'' ''A''] = 2"
  by code_simp

end
